theory Spec2Isabelle
  imports Main "HOL-Library.List_Lexorder"
begin

section \<open>Python strings\<close>

text \<open>
  A Python \<open>str\<close> is a sequence of Unicode code points, so a string is a list of
  natural numbers here (a byte string would miscount the Korean sentinel and the
  non-ASCII white space that \<open>str.strip\<close> removes). ASCII literals of the source are
  written \<open>ustr ''...''\<close>.
\<close>

type_synonym pystr = "nat list"

definition ustr :: "string \<Rightarrow> pystr" where
  "ustr s = map of_char s"

datatype py_error = IndexError | ValueError | JSONDecodeError | OSError

text \<open>\<open>str.isspace\<close> on one code point: the characters \<open>str.strip()\<close> removes.\<close>

definition py_isspace :: "nat \<Rightarrow> bool" where
  "py_isspace c =
     (c \<in> set [9, 10, 11, 12, 13, 28, 29, 30, 31, 32, 133, 160, 5760,
                8232, 8233, 8239, 8287, 12288]
      \<or> (8192 \<le> c \<and> c \<le> 8202))"

definition py_strip :: "pystr \<Rightarrow> pystr" where
  "py_strip s = rev (dropWhile py_isspace (rev (dropWhile py_isspace s)))"

definition py_startswith :: "pystr \<Rightarrow> pystr \<Rightarrow> bool" where
  "py_startswith s p = (take (length p) s = p)"

text \<open>
  \<open>s.split(sep)\<close>: a scan from the left that cuts at every occurrence of \<open>sep\<close> and
  resumes after it; \<open>cur\<close> is the segment read so far. An empty separator raises
  ValueError.
\<close>

function split_from :: "pystr \<Rightarrow> pystr \<Rightarrow> pystr \<Rightarrow> pystr list" where
  "split_from sep cur [] = [cur]"
| "split_from sep cur (c # cs) =
     (if sep \<noteq> [] \<and> py_startswith (c # cs) sep
      then cur # split_from sep [] (drop (length sep) (c # cs))
      else split_from sep (cur @ [c]) cs)"
  by pat_completeness auto
termination
  by (relation "measure (\<lambda>(sep, cur, s). length s)") auto

definition py_split :: "pystr \<Rightarrow> pystr \<Rightarrow> py_error + pystr list" where
  "py_split s sep = (if sep = [] then Inl ValueError else Inr (split_from sep [] s))"

text \<open>\<open>xs[i]\<close> for a non-negative index: IndexError out of range.\<close>

definition py_getitem :: "'a list \<Rightarrow> nat \<Rightarrow> py_error + 'a" where
  "py_getitem xs i = (if i < length xs then Inr (xs ! i) else Inl IndexError)"

section \<open>The attachment parser\<close>

text \<open>The two sentinel descriptors, \<open>"\<dots>"\<close> (four Hangul syllables: no attachment) and \<open>"-"\<close>.\<close>

definition no_attachment :: pystr where
  "no_attachment = [52392, 48512, 50630, 51020]"

definition dash :: pystr where
  "dash = ustr ''-''"

definition sentinels :: "pystr list" where
  "sentinels = [no_attachment, dash]"

definition pipe_sep :: pystr where
  "pipe_sep = ustr '' | ''"

definition newline :: pystr where
  "newline = [10]"

definition https :: pystr where
  "https = ustr ''https://''"

type_synonym file_info = "pystr option \<times> pystr option \<times> pystr option"

text \<open>
  The loop of the fallback branch: the first line that starts with \<open>https://\<close> once
  stripped is the URL, and the whole descriptor is the file name.
\<close>

fun scan_lines :: "pystr \<Rightarrow> pystr list \<Rightarrow> file_info" where
  "scan_lines attachment_string [] = (None, Some attachment_string, None)"
| "scan_lines attachment_string (l # ls) =
     (let line = py_strip l in
      if py_startswith line https then (None, Some attachment_string, Some line)
      else scan_lines attachment_string ls)"

text \<open>
  \<open>extract_file_info_from_attachment\<close> of \<open>extract_student_assignment_v4.py\<close> and of
  \<open>download_student_files.py\<close> (the two bodies are the same). \<open>None\<close> is Python's
  \<open>None\<close>; \<open>Inl\<close> is a raised exception.
\<close>

definition extract_file_info_from_attachment :: "pystr \<Rightarrow> py_error + file_info" where
  "extract_file_info_from_attachment attachment_string =
     (if attachment_string = [] \<or> attachment_string \<in> set sentinels
      then Inr (None, None, None)
      else case py_split attachment_string pipe_sep of
        Inl e \<Rightarrow> Inl e
      | Inr parts \<Rightarrow>
          if length parts \<ge> 3 then
            (let file_type = py_strip (parts ! 0);
                 file_name = py_strip (parts ! 1);
                 file_url = py_strip (parts ! 2)
             in case py_split file_url newline of
                  Inl e \<Rightarrow> Inl e
                | Inr url_lines \<Rightarrow>
                    (case py_getitem url_lines 0 of
                       Inl e \<Rightarrow> Inl e
                     | Inr first_line \<Rightarrow>
                         Inr (Some file_type, Some file_name, Some (py_strip first_line))))
          else
            (case py_split attachment_string newline of
               Inl e \<Rightarrow> Inl e
             | Inr lines \<Rightarrow> Inr (scan_lines attachment_string lines)))"

text \<open>
  The older body, of \<open>extract_student_assignment.py\<close> and
  \<open>extract_student_assignment_v2.py\<close>: the third segment is only stripped, and a
  descriptor with fewer than three segments is returned as the file name.
\<close>

definition extract_file_info_from_attachment_v1 :: "pystr \<Rightarrow> py_error + file_info" where
  "extract_file_info_from_attachment_v1 attachment_string =
     (if attachment_string = [] \<or> attachment_string \<in> set sentinels
      then Inr (None, None, None)
      else case py_split attachment_string pipe_sep of
        Inl e \<Rightarrow> Inl e
      | Inr parts \<Rightarrow>
          if length parts \<ge> 3 then
            Inr (Some (py_strip (parts ! 0)), Some (py_strip (parts ! 1)),
                 Some (py_strip (parts ! 2)))
          else Inr (None, Some attachment_string, None))"

section \<open>The fetcher\<close>

text \<open>
  The exceptions of class \<open>requests.exceptions.RequestException\<close> that the \<open>try\<close>
  block of \<open>download_file\<close> can raise: a timeout, a connection error, the
  \<open>HTTPError\<close> of \<open>raise_for_status\<close> on a non-2xx status, and the errors that
  \<open>requests.get\<close> raises before anything is sent (\<open>InvalidURL\<close>, which also stands
  for \<open>MissingSchema\<close> and \<open>InvalidSchema\<close>). The clause
  \<open>except requests.exceptions.RequestException\<close> catches all of them alike.
\<close>

datatype request_error = Timeout | ConnectionError | HTTPError | InvalidURL

text \<open>
  What one pass through the \<open>try\<close> block can do: run to \<open>return True\<close>, raise a
  \<open>RequestException\<close>, or raise another \<open>Exception\<close>. The flag of a failure says
  whether \<open>open(file_path, 'wb')\<close> had already created the file.
\<close>

datatype attempt_outcome =
  Completed | RequestException request_error bool | OtherException bool

datatype event = HttpGet nat | Sleep nat

text \<open>
  The loop \<open>for attempt in range(max_retries)\<close>, over the attempts still to make;
  \<open>net\<close> gives the outcome of each attempt, \<open>tr\<close> is the log of requests and
  sleeps so far and \<open>cr\<close> whether the file has been created. The result is the
  returned boolean with the final log and flag.
\<close>

fun download_attempts ::
  "(nat \<Rightarrow> attempt_outcome) \<Rightarrow> int \<Rightarrow> nat list \<Rightarrow> event list \<Rightarrow> bool \<Rightarrow> bool \<times> event list \<times> bool" where
  "download_attempts net max_retries [] tr cr = (False, tr, cr)"
| "download_attempts net max_retries (attempt # rest) tr cr =
     (case net attempt of
        Completed \<Rightarrow> (True, tr @ [HttpGet attempt], True)
      | RequestException err opened \<Rightarrow>
          download_attempts net max_retries rest
            (tr @ [HttpGet attempt] @
               (if int attempt < max_retries - 1 then [Sleep (2 ^ attempt)] else []))
            (cr \<or> opened)
      | OtherException opened \<Rightarrow> (False, tr @ [HttpGet attempt], cr \<or> opened))"

definition download_file :: "(nat \<Rightarrow> attempt_outcome) \<Rightarrow> int \<Rightarrow> bool \<times> event list \<times> bool" where
  "download_file net max_retries =
     download_attempts net max_retries [0..<nat max_retries] [] False"

section \<open>File names\<close>

definition invalid_chars :: pystr where
  "invalid_chars = [60, 62, 58, 34, 47, 92, 124, 63, 42]"

definition py_replace_char :: "pystr \<Rightarrow> nat \<Rightarrow> nat \<Rightarrow> pystr" where
  "py_replace_char s a b = map (\<lambda>c. if c = a then b else c) s"

definition sanitize_filename :: "pystr \<Rightarrow> pystr" where
  "sanitize_filename filename =
     (let replaced = foldl (\<lambda>f ch. py_replace_char f ch 95) filename invalid_chars;
          cut = (if length replaced > 200 then take 200 replaced else replaced)
      in py_strip cut)"

definition type_mapping :: "(pystr \<times> pystr) list" where
  "type_mapping =
     [(ustr ''application/pdf'', ustr ''.pdf''),
      (ustr ''application/haansofthwp'', ustr ''.hwp''),
      (ustr ''application/haansofthwpx'', ustr ''.hwpx''),
      (ustr ''application/msword'', ustr ''.doc''),
      (ustr ''application/vnd.openxmlformats-officedocument.wordprocessingml.document'',
       ustr ''.docx''),
      (ustr ''text/plain'', ustr ''.txt''),
      (ustr ''image/jpeg'', ustr ''.jpg''),
      (ustr ''image/png'', ustr ''.png''),
      (ustr ''image/gif'', ustr ''.gif'')]"

definition get_file_extension_from_type :: "pystr option \<Rightarrow> pystr" where
  "get_file_extension_from_type file_type =
     (case file_type of
        None \<Rightarrow> []
      | Some t \<Rightarrow> (case map_of type_mapping t of None \<Rightarrow> [] | Some ext \<Rightarrow> ext))"

text \<open>\<open>s.rfind(c)\<close> for one character: the last index of \<open>c\<close>, or \<open>-1\<close>.\<close>

fun py_rfind :: "pystr \<Rightarrow> nat \<Rightarrow> int" where
  "py_rfind [] c = -1"
| "py_rfind (x # xs) c =
     (let r = py_rfind xs c in
      if r \<ge> 0 then r + 1 else if x = c then 0 else -1)"

text \<open>
  \<open>os.path.splitext\<close>, \<open>os.path.join\<close> (two arguments) and \<open>os.path.basename\<close> of
  Python's \<open>posixpath\<close>. The extension starts at the last dot of the last path
  component, unless only dots precede it there.
\<close>

definition splitext :: "pystr \<Rightarrow> pystr \<times> pystr" where
  "splitext p =
     (let sepIndex = py_rfind p 47;
          dotIndex = py_rfind p 46
      in if dotIndex > sepIndex \<and>
            list_ex (\<lambda>i. p ! i \<noteq> 46) [nat (sepIndex + 1)..<nat dotIndex]
         then (take (nat dotIndex) p, drop (nat dotIndex) p)
         else (p, []))"

definition os_path_join :: "pystr \<Rightarrow> pystr \<Rightarrow> pystr" where
  "os_path_join a b =
     (if py_startswith b [47] then b
      else if a = [] \<or> last a = 47 then a @ b
      else a @ [47] @ b)"

definition basename :: "pystr \<Rightarrow> pystr" where
  "basename p = drop (nat (py_rfind p 47 + 1)) p"

text \<open>
  \<open>urlparse_path url\<close> stands for \<open>urlparse(url).path\<close> of \<open>urllib.parse\<close>, which
  raises ValueError on a malformed URL (an unclosed bracket in the host, for one);
  nothing in the scripts catches it.
\<close>

definition get_file_extension_from_url ::
  "(pystr \<Rightarrow> py_error + pystr) \<Rightarrow> pystr \<Rightarrow> py_error + pystr" where
  "get_file_extension_from_url urlparse_path url =
     (case urlparse_path url of
        Inl e \<Rightarrow> Inl e
      | Inr path \<Rightarrow> Inr (if 46 \<in> set path then snd (splitext path) else []))"

text \<open>\<open>str(n)\<close> of a non-negative integer: its decimal digits.\<close>

fun str_nat :: "nat \<Rightarrow> pystr" where
  "str_nat n = (if n < 10 then [48 + n] else str_nat (n div 10) @ [48 + n mod 10])"

declare str_nat.simps [simp del]

text \<open>The name built in the body of the collision loop: \<open>f"{name}_{counter}{ext}"\<close>.\<close>

definition numbered :: "pystr \<Rightarrow> nat \<Rightarrow> pystr" where
  "numbered original_filename counter =
     fst (splitext original_filename) @ ustr ''_'' @ str_nat counter @
     snd (splitext original_filename)"

text \<open>
  The loop \<open>while os.path.exists(file_path)\<close> of \<open>process_json_file\<close>, with the state
  it updates (\<open>clean_filename\<close>, \<open>counter\<close>; \<open>file_path\<close> is always the join of
  the folder and \<open>clean_filename\<close>). \<open>path_exists\<close> is \<open>os.path.exists\<close>. The loop
  need not end: \<open>None\<close> is a run that never leaves it.
\<close>

partial_function (option) resolve_loop ::
  "(pystr \<Rightarrow> bool) \<Rightarrow> pystr \<Rightarrow> pystr \<Rightarrow> pystr \<Rightarrow> nat \<Rightarrow> (pystr \<times> pystr \<times> nat) option" where
  "resolve_loop path_exists student_folder original_filename clean_filename counter =
     (if path_exists (os_path_join student_folder clean_filename)
      then resolve_loop path_exists student_folder original_filename
             (numbered original_filename counter) (counter + 1)
      else Some (clean_filename, os_path_join student_folder clean_filename, counter))"

declare resolve_loop.simps [code]

text \<open>Lines 203 to 212: the counter starts at 1 and the first candidate is the name itself.\<close>

definition resolve_collision ::
  "(pystr \<Rightarrow> bool) \<Rightarrow> pystr \<Rightarrow> pystr \<Rightarrow> (pystr \<times> pystr \<times> nat) option" where
  "resolve_collision path_exists student_folder clean_filename =
     resolve_loop path_exists student_folder clean_filename clean_filename 1"

text \<open>The sequence of candidates: the name itself, then the numbered names from 1 on.\<close>

definition candidate :: "pystr \<Rightarrow> nat \<Rightarrow> pystr" where
  "candidate original_filename k =
     (if k = 0 then original_filename else numbered original_filename k)"

section \<open>The JSON reports\<close>

text \<open>
  A report as the scripts read it. A field is \<open>None\<close> when its key is absent; a
  \<open>statsByMember\<close> that is not a list is read as absent, as
  \<open>isinstance(data['statsByMember'], list)\<close> makes it.
\<close>

record assignment =
  subject :: "pystr option"
  submitSubject :: "pystr option"
  submitAttachments :: "pystr option"
  submitCreated :: "pystr option"
  submitReview :: "pystr option"

record member_info =
  displayName :: "pystr option"

record member_data =
  member_key :: "member_info option"
  assignments :: "assignment list option"

record json_data =
  statsByMember :: "member_data list option"

text \<open>\<open>d.get(key, dflt)\<close>.\<close>

definition get_or :: "'a option \<Rightarrow> 'a \<Rightarrow> 'a" where
  "get_or v dflt = (case v of None \<Rightarrow> dflt | Some x \<Rightarrow> x)"

section \<open>The extraction pipeline\<close>

record assignment_info =
  info_subject :: pystr
  submit_subject :: pystr
  file_type :: "pystr option"
  file_name :: "pystr option"
  file_url :: "pystr option"
  submit_created :: pystr
  submit_review :: pystr

text \<open>
  \<open>student_assignments\<close> is a \<open>defaultdict(list)\<close>: the keys in insertion order, each
  with its list. \<open>dict_append d k v\<close> is \<open>d[k].append(v)\<close> and \<open>dict_lookup d k\<close> is
  \<open>d[k]\<close>.
\<close>

type_synonym student_dict = "(pystr \<times> assignment_info list) list"

fun dict_append :: "('k \<times> 'v list) list \<Rightarrow> 'k \<Rightarrow> 'v \<Rightarrow> ('k \<times> 'v list) list" where
  "dict_append [] k v = [(k, [v])]"
| "dict_append ((k', vs) # d) k v =
     (if k' = k then (k', vs @ [v]) # d else (k', vs) # dict_append d k v)"

definition dict_lookup :: "('k \<times> 'v list) list \<Rightarrow> 'k \<Rightarrow> 'v list" where
  "dict_lookup d k = (case map_of d k of None \<Rightarrow> [] | Some vs \<Rightarrow> vs)"

text \<open>The default strings of the extraction scripts, as code points.\<close>

definition no_name :: pystr where
  "no_name = [51060, 47492, 32, 50630, 51020]"

definition no_subject :: pystr where
  "no_subject = [44284, 51228, 47749, 32, 50630, 51020]"

definition no_submit_subject :: pystr where
  "no_submit_subject = [51228, 52636, 32, 51228, 47785, 32, 50630, 51020]"

definition no_date :: pystr where
  "no_date = [45216, 51676, 32, 50630, 51020]"

definition no_review :: pystr where
  "no_review = [54980, 44592, 32, 50630, 51020]"

text \<open>
  The body of \<open>for assignment in assignments\<close> in
  \<open>extract_student_assignments_from_json\<close> (\<open>extract_student_assignment_v4.py\<close>).
\<close>

definition extract_assignment ::
  "pystr \<Rightarrow> assignment \<Rightarrow> student_dict \<Rightarrow> py_error + student_dict" where
  "extract_assignment student_name a student_assignments =
     (case submitAttachments a of
        None \<Rightarrow> Inr student_assignments
      | Some att \<Rightarrow>
          if att \<in> set sentinels then Inr student_assignments
          else (case extract_file_info_from_attachment att of
                  Inl e \<Rightarrow> Inl e
                | Inr (ftype, fname, furl) \<Rightarrow>
                    Inr (dict_append student_assignments student_name
                          \<lparr>info_subject = get_or (subject a) no_subject,
                           submit_subject = get_or (submitSubject a) no_submit_subject,
                           file_type = ftype,
                           file_name = fname,
                           file_url = furl,
                           submit_created = get_or (submitCreated a) no_date,
                           submit_review = get_or (submitReview a) no_review\<rparr>)))"

fun extract_assignments ::
  "pystr \<Rightarrow> assignment list \<Rightarrow> student_dict \<Rightarrow> py_error + student_dict" where
  "extract_assignments student_name [] d = Inr d"
| "extract_assignments student_name (a # rest) d =
     (case extract_assignment student_name a d of
        Inl e \<Rightarrow> Inl e
      | Inr d' \<Rightarrow> extract_assignments student_name rest d')"

text \<open>The loop \<open>for member_data in data['statsByMember']\<close>.\<close>

fun extract_members :: "member_data list \<Rightarrow> student_dict \<Rightarrow> py_error + student_dict" where
  "extract_members [] d = Inr d"
| "extract_members (m # rest) d =
     (case member_key m of
        None \<Rightarrow> extract_members rest d
      | Some member_info \<Rightarrow>
          (let student_name = get_or (displayName member_info) no_name;
               todo = get_or (assignments m) []
           in if todo = [] then extract_members rest d
              else (case extract_assignments student_name todo d of
                      Inl e \<Rightarrow> Inl e
                    | Inr d' \<Rightarrow> extract_members rest d')))"

text \<open>
  The argument is what \<open>open\<close> and \<open>json.load\<close> give for the path: the exception
  they raise, or the report.
\<close>

definition extract_student_assignments_from_json ::
  "py_error + json_data \<Rightarrow> py_error + student_dict" where
  "extract_student_assignments_from_json loaded =
     (case loaded of
        Inl e \<Rightarrow> Inl e
      | Inr data \<Rightarrow>
          (case statsByMember data of
             None \<Rightarrow> Inr []
           | Some members \<Rightarrow> extract_members members []))"

record csv_row =
  row_student :: pystr
  row_subject :: pystr
  row_submit_subject :: pystr
  row_file_type :: "pystr option"
  row_file_name :: "pystr option"
  row_submit_created :: pystr
  row_submit_review :: pystr
  row_file_url :: "pystr option"

definition make_row :: "pystr \<Rightarrow> assignment_info \<Rightarrow> csv_row" where
  "make_row student_name a =
     \<lparr>row_student = student_name,
      row_subject = info_subject a,
      row_submit_subject = submit_subject a,
      row_file_type = file_type a,
      row_file_name = file_name a,
      row_submit_created = submit_created a,
      row_submit_review = submit_review a,
      row_file_url = file_url a\<rparr>"

text \<open>
  \<open>create_csv_file\<close>: the data rows written after the header, in the order of the two
  nested loops. Python orders strings by code point, as the lexicographic order on
  lists of numbers does.
\<close>

definition create_csv_file :: "student_dict \<Rightarrow> csv_row list" where
  "create_csv_file student_assignments =
     concat (map (\<lambda>student_name.
                    map (make_row student_name) (dict_lookup student_assignments student_name))
                 (sort (map fst student_assignments)))"

text \<open>The loop of \<open>main\<close> in \<open>extract_student_assignment_v4.py\<close>, one pass per file.\<close>

datatype file_status = Succeeded | NoData | Failed py_error

record processing_result =
  filename :: pystr
  students :: nat
  submissions :: nat
  status :: file_status

record run_state =
  processing_results :: "processing_result list"
  csv_files :: "(pystr \<times> csv_row list) list"
  detailed_data :: "pystr \<rightharpoonup> student_dict"

definition process_file_v4 :: "pystr \<times> (py_error + json_data) \<Rightarrow> run_state \<Rightarrow> run_state" where
  "process_file_v4 json_file st =
     (let fname = basename (fst json_file) in
      case extract_student_assignments_from_json (snd json_file) of
        Inl e \<Rightarrow>
          st\<lparr>processing_results := processing_results st @
               [\<lparr>filename = fname, students = 0, submissions = 0, status = Failed e\<rparr>]\<rparr>
      | Inr student_assignments \<Rightarrow>
          (let students_count = length student_assignments;
               submissions_count = sum_list (map (\<lambda>kv. length (snd kv)) student_assignments);
               st1 = (if student_assignments \<noteq> []
                      then st\<lparr>csv_files := csv_files st @
                                [(os_path_join (ustr ''./results'')
                                    (fst (splitext fname) @ ustr ''.csv''),
                                  create_csv_file student_assignments)]\<rparr>
                      else st)
           in st1\<lparr>processing_results := processing_results st1 @
                    [\<lparr>filename = fname, students = students_count,
                      submissions = submissions_count,
                      status = (if student_assignments \<noteq> [] then Succeeded else NoData)\<rparr>],
                  detailed_data := (detailed_data st1)(fname \<mapsto> student_assignments)\<rparr>))"

fun main_loop_v4 :: "(pystr \<times> (py_error + json_data)) list \<Rightarrow> run_state \<Rightarrow> run_state" where
  "main_loop_v4 [] st = st"
| "main_loop_v4 (json_file # rest) st = main_loop_v4 rest (process_file_v4 json_file st)"

definition main_v4 :: "(pystr \<times> (py_error + json_data)) list \<Rightarrow> run_state" where
  "main_v4 json_files =
     main_loop_v4 (sort_key fst json_files)
       \<lparr>processing_results = [], csv_files = [], detailed_data = Map.empty\<rparr>"

section \<open>The download pipeline\<close>

text \<open>
  \<open>download_stats\<close> is the dictionary of the four counters. The world outside the
  script is the set \<open>fs\<close> of paths for which \<open>os.path.exists\<close> holds and the number
  of calls of \<open>download_file\<close> made so far; \<open>network env n\<close> gives the outcomes of the
  attempts of call \<open>n\<close>. A result is \<open>None\<close> when the run never ends, \<open>Some (Inl e)\<close>
  when it raises \<open>e\<close>, and \<open>Some (Inr x)\<close> when it returns \<open>x\<close>. Console output and
  the pause of half a second after each download are left out, as are failures of the
  file system itself.
\<close>

record download_stats =
  total_files :: nat
  successful_downloads :: nat
  failed_downloads :: nat
  students_processed :: nat

record world =
  fs :: "pystr set"
  calls :: nat

record environment =
  network :: "nat \<Rightarrow> nat \<Rightarrow> attempt_outcome"
  urlparse_path :: "pystr \<Rightarrow> py_error + pystr"

record pstate =
  dstats :: download_stats
  student_files :: nat
  student_downloads :: nat
  world :: world

definition zero_stats :: download_stats where
  "zero_stats =
     \<lparr>total_files = 0, successful_downloads = 0, failed_downloads = 0, students_processed = 0\<rparr>"


definition default_name :: "nat \<Rightarrow> pystr" where
  "default_name i = [44284, 51228, 95] @ str_nat (i + 1)"

definition info_suffix :: pystr where
  "info_suffix = [95, 51221, 48372, 46, 116, 120, 116]"


text \<open>Lines 191 to 201: the cleaned file name, with an extension when it has none.\<close>

definition choose_filename ::
  "environment \<Rightarrow> nat \<Rightarrow> pystr option \<Rightarrow> pystr option \<Rightarrow> pystr \<Rightarrow> py_error + pystr" where
  "choose_filename env i ftype fname furl =
     (let clean_filename =
            (case fname of
               None \<Rightarrow> default_name i
             | Some n \<Rightarrow> if n = [] then default_name i else sanitize_filename n)
      in if snd (splitext clean_filename) = [] then
           (let e = get_file_extension_from_type ftype
            in case (if e \<noteq> [] then Inr e
                     else get_file_extension_from_url (urlparse_path env) furl) of
                 Inl err \<Rightarrow> Inl err
               | Inr ext \<Rightarrow> Inr (if ext \<noteq> [] then clean_filename @ ext else clean_filename))
         else Inr clean_filename)"

text \<open>
  Lines 214 to 229: the call of \<open>download_file\<close> with its default of three attempts,
  and the counters and files after it.
\<close>

definition record_download :: "environment \<Rightarrow> pystr \<Rightarrow> pystr \<Rightarrow> pystr \<Rightarrow> pstate \<Rightarrow> pstate" where
  "record_download env student_folder clean_filename file_path st =
     (case download_file (network env (calls (world st))) 3 of
        (ok, tr, created) \<Rightarrow>
          (let w = world st;
               w1 = w\<lparr>calls := calls w + 1,
                      fs := (if created then insert file_path (fs w) else fs w)\<rparr>;
               info_file = os_path_join student_folder
                             (fst (splitext clean_filename) @ info_suffix)
           in if ok then
                st\<lparr>student_downloads := student_downloads st + 1,
                   dstats := (dstats st)\<lparr>successful_downloads :=
                                            successful_downloads (dstats st) + 1\<rparr>,
                   world := w1\<lparr>fs := insert info_file (fs w1)\<rparr>\<rparr>
              else
                st\<lparr>dstats := (dstats st)\<lparr>failed_downloads :=
                                            failed_downloads (dstats st) + 1\<rparr>,
                   world := w1\<rparr>))"

text \<open>The body of \<open>for i, assignment in enumerate(assignments)\<close>.\<close>

definition process_assignment ::
  "environment \<Rightarrow> pystr \<Rightarrow> nat \<Rightarrow> assignment \<Rightarrow> pstate \<Rightarrow> (py_error + pstate) option" where
  "process_assignment env student_folder i a st =
     (case submitAttachments a of
        None \<Rightarrow> Some (Inr st)
      | Some att \<Rightarrow>
          if att \<in> set sentinels then Some (Inr st)
          else (case extract_file_info_from_attachment att of
                  Inl e \<Rightarrow> Some (Inl e)
                | Inr (ftype, fname, furl_opt) \<Rightarrow>
                    (case furl_opt of
                       None \<Rightarrow> Some (Inr st)
                     | Some furl \<Rightarrow>
                         if furl = [] \<or> \<not> py_startswith furl https then Some (Inr st)
                         else
                           (let st1 = st\<lparr>student_files := student_files st + 1,
                                         dstats := (dstats st)\<lparr>total_files :=
                                                       total_files (dstats st) + 1\<rparr>\<rparr>
                            in case choose_filename env i ftype fname furl of
                                 Inl e \<Rightarrow> Some (Inl e)
                               | Inr clean_filename \<Rightarrow>
                                   (case resolve_collision (\<lambda>p. p \<in> fs (world st1))
                                           student_folder clean_filename of
                                      None \<Rightarrow> None
                                    | Some (free_name, file_path, counter) \<Rightarrow>
                                        Some (Inr (record_download env student_folder
                                                     free_name file_path st1)))))))"








section \<open>Vocabulary of the properties\<close>



text \<open>
  An attempt that raised a \<open>RequestException\<close> of any kind, and a request in the log of
  a run.
\<close>

definition is_request_failure :: "attempt_outcome \<Rightarrow> bool" where
  "is_request_failure r = (case r of RequestException err b \<Rightarrow> True | _ \<Rightarrow> False)"

text \<open>
  The failures the specification calls network-level: timeout, connection error,
  non-2xx status.
\<close>

definition network_level :: "request_error \<Rightarrow> bool" where
  "network_level err = (err \<noteq> InvalidURL)"

definition is_get :: "event \<Rightarrow> bool" where
  "is_get ev = (case ev of HttpGet a \<Rightarrow> True | Sleep n \<Rightarrow> False)"

text \<open>
  The log of a run that starts at attempt \<open>a\<close> and whose last request is attempt
  \<open>k - 1\<close>: every request before the last is followed by its sleep.
\<close>

definition backoff_log :: "nat \<Rightarrow> nat \<Rightarrow> event list" where
  "backoff_log a k =
     concat (map (\<lambda>j. [HttpGet j, Sleep (2 ^ j)]) [a..<k - 1]) @ [HttpGet (k - 1)]"





text \<open>An assignment that has at most the \<open>submitAttachments\<close> key.\<close>

definition blank_assignment :: "pystr option \<Rightarrow> assignment" where
  "blank_assignment att =
     \<lparr>subject = None, submitSubject = None, submitAttachments = att,
      submitCreated = None, submitReview = None\<rparr>"





section \<open>Properties of the attachment parser\<close>

lemmas str_defs = ustr_def sentinels_def no_attachment_def dash_def pipe_sep_def py_split_def
  py_startswith_def py_strip_def py_isspace_def newline_def py_getitem_def https_def

lemma split_from_not_Nil: "split_from sep cur s \<noteq> []"
  by (induction sep cur s rule: split_from.induct) auto

lemma split_from_newline_hd:
  "hd (split_from newline cur s) = cur @ takeWhile (\<lambda>c. c \<noteq> 10) s"
  by (induction s arbitrary: cur) (auto simp: newline_def py_startswith_def)

lemma py_split_newline:
  "\<exists>ls. py_split s newline = Inr ((takeWhile (\<lambda>c. c \<noteq> 10) s) # ls)"
proof -
  obtain x xs where "split_from newline [] s = x # xs"
    using split_from_not_Nil [of newline "[]" s] by (cases "split_from newline [] s") auto
  moreover from this have "x = takeWhile (\<lambda>c. c \<noteq> 10) s"
    using split_from_newline_hd [of "[]" s] by simp
  ultimately show ?thesis by (simp add: py_split_def newline_def)
qed

lemma split_sentinel:
  "d = [] \<or> d \<in> set sentinels \<Longrightarrow> length (split_from pipe_sep [] d) = 1"
  by (auto simp: sentinels_def no_attachment_def dash_def pipe_sep_def ustr_def py_startswith_def)

lemma scan_lines_find:
  "scan_lines a ls =
     (None, Some a, List.find (\<lambda>l. py_startswith l https) (map py_strip ls))"
  by (induction ls) (auto simp: Let_def)

lemma parse_returns: "\<exists>ftype fname furl. extract_file_info_from_attachment d = Inr (ftype, fname, furl)"
proof -
  obtain ls where "py_split (py_strip (split_from pipe_sep [] d ! 2)) newline =
      Inr (takeWhile (\<lambda>c. c \<noteq> 10) (py_strip (split_from pipe_sep [] d ! 2)) # ls)"
    using py_split_newline by blast
  moreover have "\<exists>a b c. scan_lines d ls' = (a, b, c)" for ls'
    by (metis prod_cases3)
  ultimately show ?thesis
    by (auto simp: extract_file_info_from_attachment_def py_split_def py_getitem_def
        pipe_sep_def ustr_def newline_def)
qed

text \<open>
  The older body (\<open>extract_student_assignment.py\<close>, \<open>extract_student_assignment_v2.py\<close>)
  differs in both branches: it keeps the whole stripped third segment, newlines
  included, and it never takes a URL from a descriptor with fewer than three segments.
\<close>

lemma older_parser_three_segments:
  assumes "py_split d pipe_sep = Inr (p0 # p1 # p2 # more_segments)"
  shows "extract_file_info_from_attachment_v1 d =
           Inr (Some (py_strip p0), Some (py_strip p1), Some (py_strip p2))"
proof -
  from assms have "split_from pipe_sep [] d = p0 # p1 # p2 # more_segments"
    by (simp add: py_split_def split: if_splits)
  then have "\<not> (d = [] \<or> d \<in> set sentinels)"
    using split_sentinel [of d] by auto
  with assms show ?thesis
    by (simp add: extract_file_info_from_attachment_v1_def)
qed

lemma older_parser_fallback:
  assumes "d \<noteq> []" and "d \<notin> set sentinels"
    and "py_split d pipe_sep = Inr parts" and "length parts < 3"
  shows "extract_file_info_from_attachment_v1 d = Inr (None, Some d, None)"
  using assms by (simp add: extract_file_info_from_attachment_v1_def)

text \<open>
  Claim C1, as the code has it. A descriptor that \<open>" | "\<close> splits into three or more
  segments is parsed to the first segment stripped as the type and the second stripped
  as the name, by every version of the parser; the segments from the fourth on do not
  occur in the result. The URL is, in \<open>extract_student_assignment_v4.py\<close> and
  \<open>download_student_files.py\<close>, the text before the first newline of the stripped third
  segment, stripped again; in the two older scripts it is the whole stripped third
  segment. (A sentinel or empty descriptor never has three segments, so that hypothesis
  is not needed.)
\<close>

theorem parse_three_segments:
  assumes "py_split d pipe_sep = Inr (p0 # p1 # p2 # more_segments)"
  shows "extract_file_info_from_attachment d =
           Inr (Some (py_strip p0), Some (py_strip p1),
                Some (py_strip (takeWhile (\<lambda>c. c \<noteq> 10) (py_strip p2))))
       \<and> extract_file_info_from_attachment_v1 d =
           Inr (Some (py_strip p0), Some (py_strip p1), Some (py_strip p2))"
proof
  from assms have sp: "split_from pipe_sep [] d = p0 # p1 # p2 # more_segments"
    by (simp add: py_split_def split: if_splits)
  then have ns: "\<not> (d = [] \<or> d \<in> set sentinels)"
    using split_sentinel [of d] by auto
  obtain ls where "py_split (py_strip p2) newline =
      Inr (takeWhile (\<lambda>c. c \<noteq> 10) (py_strip p2) # ls)"
    using py_split_newline by blast
  with assms ns show "extract_file_info_from_attachment d =
           Inr (Some (py_strip p0), Some (py_strip p1),
                Some (py_strip (takeWhile (\<lambda>c. c \<noteq> 10) (py_strip p2))))"
    by (simp add: extract_file_info_from_attachment_def py_getitem_def)
  show "extract_file_info_from_attachment_v1 d =
           Inr (Some (py_strip p0), Some (py_strip p1), Some (py_strip p2))"
    using assms by (rule older_parser_three_segments)
qed

theorem parse_three_segments_witness:
  "py_split (ustr ''pdf | hw1.pdf | https://x/y.pdf '' @ [10] @ ustr ''application/pdf | tail'')
      pipe_sep =
     Inr [ustr ''pdf'', ustr ''hw1.pdf'',
          ustr ''https://x/y.pdf '' @ [10] @ ustr ''application/pdf'', ustr ''tail'']
   \<and> extract_file_info_from_attachment
       (ustr ''pdf | hw1.pdf | https://x/y.pdf '' @ [10] @ ustr ''application/pdf | tail'') =
     Inr (Some (ustr ''pdf''), Some (ustr ''hw1.pdf''), Some (ustr ''https://x/y.pdf''))
   \<and> extract_file_info_from_attachment_v1
       (ustr ''pdf | hw1.pdf | https://x/y.pdf '' @ [10] @ ustr ''application/pdf | tail'') =
     Inr (Some (ustr ''pdf''), Some (ustr ''hw1.pdf''),
          Some (ustr ''https://x/y.pdf '' @ [10] @ ustr ''application/pdf''))"
proof -
  have h: "py_split (ustr ''pdf | hw1.pdf | https://x/y.pdf '' @ [10] @ ustr ''application/pdf | tail'')
      pipe_sep =
     Inr [ustr ''pdf'', ustr ''hw1.pdf'',
          ustr ''https://x/y.pdf '' @ [10] @ ustr ''application/pdf'', ustr ''tail'']"
    by (simp add: str_defs)
  have s0: "py_strip (ustr ''pdf'') = ustr ''pdf''" by (simp add: str_defs)
  have s1: "py_strip (ustr ''hw1.pdf'') = ustr ''hw1.pdf''" by (simp add: str_defs)
  have s2: "py_strip (takeWhile (\<lambda>c. c \<noteq> 10)
              (py_strip (ustr ''https://x/y.pdf '' @ [10] @ ustr ''application/pdf''))) =
            ustr ''https://x/y.pdf''" by (simp add: str_defs)
  have s3: "py_strip (ustr ''https://x/y.pdf '' @ [10] @ ustr ''application/pdf'') =
            ustr ''https://x/y.pdf '' @ [10] @ ustr ''application/pdf''" by (simp add: str_defs)
  from parse_three_segments [OF h] h s0 s1 s2 s3 show ?thesis by simp
qed

text \<open>
  The claim as stated fails for the parser of \<open>extract_student_assignment.py\<close> (and of
  \<open>extract_student_assignment_v2.py\<close>): the URL it returns keeps the newline and the
  line after it.
\<close>

theorem older_parser_keeps_newline:
  "extract_file_info_from_attachment_v1
     (ustr ''pdf | hw1.pdf | https://x/y.pdf'' @ [10] @ ustr ''application/pdf'') =
   Inr (Some (ustr ''pdf''), Some (ustr ''hw1.pdf''),
        Some (ustr ''https://x/y.pdf'' @ [10] @ ustr ''application/pdf''))
   \<and> takeWhile (\<lambda>c. c \<noteq> 10) (ustr ''https://x/y.pdf'' @ [10] @ ustr ''application/pdf'') =
       ustr ''https://x/y.pdf''
   \<and> ustr ''https://x/y.pdf'' @ [10] @ ustr ''application/pdf'' \<noteq> ustr ''https://x/y.pdf''"
  by (simp add: extract_file_info_from_attachment_v1_def str_defs)

text \<open>
  Claim C3, as the code has it. A descriptor that is neither empty nor a sentinel and
  has fewer than three segments is parsed to itself as the name and no type, by every
  version of the parser. In \<open>extract_student_assignment_v4.py\<close> and
  \<open>download_student_files.py\<close> the URL is the first of its lines (split at newlines,
  each stripped) that starts with \<open>https://\<close>, and is absent when no line does; in the
  two older scripts the URL is always absent.
\<close>

theorem parse_fallback:
  assumes "d \<noteq> []" and "d \<notin> set sentinels"
    and "py_split d pipe_sep = Inr parts" and "length parts < 3"
  shows "extract_file_info_from_attachment d =
           Inr (None, Some d,
                List.find (\<lambda>l. py_startswith l https)
                  (map py_strip (split_from newline [] d)))
       \<and> extract_file_info_from_attachment_v1 d = Inr (None, Some d, None)"
proof
  show "extract_file_info_from_attachment d =
           Inr (None, Some d,
                List.find (\<lambda>l. py_startswith l https)
                  (map py_strip (split_from newline [] d)))"
    using assms
    by (simp add: extract_file_info_from_attachment_def py_split_def newline_def scan_lines_find)
  show "extract_file_info_from_attachment_v1 d = Inr (None, Some d, None)"
    using assms by (rule older_parser_fallback)
qed

theorem parse_fallback_witness:
  "extract_file_info_from_attachment
     (ustr ''just a url'' @ [10] @ ustr ''  https://host/f '' @ [10] @ ustr ''https://extra'') =
   Inr (None,
        Some (ustr ''just a url'' @ [10] @ ustr ''  https://host/f '' @ [10] @ ustr ''https://extra''),
        Some (ustr ''https://host/f''))
   \<and> extract_file_info_from_attachment (ustr ''no link here'') =
     Inr (None, Some (ustr ''no link here''), None)
   \<and> extract_file_info_from_attachment_v1 (ustr ''no link here'') =
     Inr (None, Some (ustr ''no link here''), None)"
proof -
  let ?d = "ustr ''just a url'' @ [10] @ ustr ''  https://host/f '' @ [10] @ ustr ''https://extra''"
  let ?e = "ustr ''no link here''"
  have d: "?d \<noteq> []" "?d \<notin> set sentinels" "py_split ?d pipe_sep = Inr [?d]" "length [?d] < 3"
    by (simp_all add: str_defs)
  have e: "?e \<noteq> []" "?e \<notin> set sentinels" "py_split ?e pipe_sep = Inr [?e]" "length [?e] < 3"
    by (simp_all add: str_defs)
  have fd: "List.find (\<lambda>l. py_startswith l https) (map py_strip (split_from newline [] ?d)) =
              Some (ustr ''https://host/f'')"
    by (simp add: str_defs)
  have fe: "List.find (\<lambda>l. py_startswith l https) (map py_strip (split_from newline [] ?e)) = None"
    by (simp add: str_defs)
  from parse_fallback [OF d] parse_fallback [OF e] fd fe show ?thesis by simp
qed

text \<open>
  The claim as stated fails for the parser of \<open>extract_student_assignment.py\<close> (and of
  \<open>extract_student_assignment_v2.py\<close>): a descriptor whose second line starts with
  \<open>https://\<close> is returned without a URL.
\<close>

theorem older_parser_finds_no_url:
  "py_startswith (py_strip (ustr ''https://host/f'')) https
   \<and> split_from newline [] (ustr ''memo'' @ [10] @ ustr ''https://host/f'') =
       [ustr ''memo'', ustr ''https://host/f'']
   \<and> extract_file_info_from_attachment_v1 (ustr ''memo'' @ [10] @ ustr ''https://host/f'') =
       Inr (None, Some (ustr ''memo'' @ [10] @ ustr ''https://host/f''), None)"
  by (simp add: extract_file_info_from_attachment_v1_def str_defs)

text \<open>
  Claim C7. The parser returns a triple for every string: no branch of it raises.
\<close>

theorem parse_total: "\<exists>t. extract_file_info_from_attachment d = Inr t"
  using parse_returns [of d] by blast

section \<open>Properties of the fetcher\<close>

lemma download_attempts_result:
  "fst (download_attempts net m as tr cr) = fst (download_attempts net m as [] False)"
  by (induction as arbitrary: tr cr) (auto split: attempt_outcome.splits)

lemma download_attempts_log:
  "fst (snd (download_attempts net m as tr cr)) = tr @ fst (snd (download_attempts net m as [] False))"
proof (induction as arbitrary: tr cr)
  case Nil
  show ?case by simp
next
  case (Cons a as)
  show ?case
  proof (cases "net a")
    case Completed
    then show ?thesis by simp
  next
    case (RequestException err b)
    then show ?thesis
      using Cons.IH [of "tr @ HttpGet a # (if int a < m - 1 then [Sleep (2 ^ a)] else [])" "cr \<or> b"]
            Cons.IH [of "HttpGet a # (if int a < m - 1 then [Sleep (2 ^ a)] else [])" "b"]
      by simp
  next
    case (OtherException b)
    then show ?thesis by simp
  qed
qed

lemma result_upt:
  "fst (download_attempts net m [a..<n] [] False) \<longleftrightarrow>
     (\<exists>k. a \<le> k \<and> k < n \<and> net k = Completed \<and> (\<forall>j. a \<le> j \<and> j < k \<longrightarrow> is_request_failure (net j)))"
proof (induction "n - a" arbitrary: a)
  case 0
  then show ?case by simp
next
  case (Suc d)
  then have lt: "a < n" and d: "d = n - Suc a" by simp_all
  have up: "[a..<n] = a # [Suc a..<n]" using lt by (simp add: upt_conv_Cons)
  show ?case
  proof (cases "net a")
    case Completed
    then show ?thesis using up lt by auto
  next
    case (RequestException err b)
    have "fst (download_attempts net m [a..<n] [] False) = fst (download_attempts net m [Suc a..<n] [] False)"
      using up RequestException download_attempts_result [of net m "[Suc a..<n]"] by simp
    also have "\<dots> \<longleftrightarrow> (\<exists>k. Suc a \<le> k \<and> k < n \<and> net k = Completed \<and> (\<forall>j. Suc a \<le> j \<and> j < k \<longrightarrow> is_request_failure (net j)))"
      using Suc.hyps(1) [OF d] .
    also have "\<dots> \<longleftrightarrow> (\<exists>k. a \<le> k \<and> k < n \<and> net k = Completed \<and> (\<forall>j. a \<le> j \<and> j < k \<longrightarrow> is_request_failure (net j)))"
    proof
      assume "\<exists>k. Suc a \<le> k \<and> k < n \<and> net k = Completed \<and> (\<forall>j. Suc a \<le> j \<and> j < k \<longrightarrow> is_request_failure (net j))"
      then obtain k where k: "Suc a \<le> k" "k < n" "net k = Completed" "\<forall>j. Suc a \<le> j \<and> j < k \<longrightarrow> is_request_failure (net j)" by blast
      have "is_request_failure (net j)" if "a \<le> j \<and> j < k" for j
        using that k(4) RequestException by (cases "j = a") (auto simp: is_request_failure_def)
      with k show "\<exists>k. a \<le> k \<and> k < n \<and> net k = Completed \<and> (\<forall>j. a \<le> j \<and> j < k \<longrightarrow> is_request_failure (net j))"
        by (intro exI [of _ k]) auto
    next
      assume "\<exists>k. a \<le> k \<and> k < n \<and> net k = Completed \<and> (\<forall>j. a \<le> j \<and> j < k \<longrightarrow> is_request_failure (net j))"
      then obtain k where k: "a \<le> k" "k < n" "net k = Completed" "\<forall>j. a \<le> j \<and> j < k \<longrightarrow> is_request_failure (net j)" by blast
      have "k \<noteq> a" using k(3) RequestException by auto
      with k show "\<exists>k. Suc a \<le> k \<and> k < n \<and> net k = Completed \<and> (\<forall>j. Suc a \<le> j \<and> j < k \<longrightarrow> is_request_failure (net j))"
        by (intro exI [of _ k]) auto
    qed
    finally show ?thesis .
  next
    case (OtherException b)
    have "\<not> fst (download_attempts net m [a..<n] [] False)"
      using up OtherException by simp
    moreover have "\<not> (\<exists>k. a \<le> k \<and> k < n \<and> net k = Completed \<and> (\<forall>j. a \<le> j \<and> j < k \<longrightarrow> is_request_failure (net j)))"
    proof
      assume "\<exists>k. a \<le> k \<and> k < n \<and> net k = Completed \<and> (\<forall>j. a \<le> j \<and> j < k \<longrightarrow> is_request_failure (net j))"
      then obtain k where k: "a \<le> k" "k < n" "net k = Completed" "\<forall>j. a \<le> j \<and> j < k \<longrightarrow> is_request_failure (net j)" by blast
      have "k \<noteq> a" using k(3) OtherException by auto
      then have "is_request_failure (net a)" using k by auto
      then show False using OtherException by (simp add: is_request_failure_def)
    qed
    ultimately show ?thesis by blast
  qed
qed

lemma backoff_log_step: "Suc a < k \<Longrightarrow> backoff_log a k = HttpGet a # Sleep (2 ^ a) # backoff_log (Suc a) k"
  by (simp add: backoff_log_def upt_conv_Cons)

lemma backoff_log_last: "backoff_log a (Suc a) = [HttpGet a]"
  by (simp add: backoff_log_def)

lemma log_upt:
  assumes "a < n" "n = nat m"
  shows "\<exists>k. a < k \<and> k \<le> n \<and> fst (snd (download_attempts net m [a..<n] [] False)) = backoff_log a k
      \<and> (\<forall>j. a \<le> j \<and> j < k - 1 \<longrightarrow> is_request_failure (net j))
      \<and> (is_request_failure (net (k - 1)) \<longrightarrow> k = n)"
  using assms
proof (induction "n - a" arbitrary: a)
  case 0
  then show ?case by simp
next
  case (Suc d)
  then have lt: "a < n" and d: "d = n - Suc a" by simp_all
  have up: "[a..<n] = a # [Suc a..<n]" using lt by (simp add: upt_conv_Cons)
  show ?case
  proof (cases "net a")
    case Completed
    then show ?thesis using up lt
      by (intro exI [of _ "Suc a"]) (auto simp: backoff_log_last is_request_failure_def)
  next
    case (OtherException b)
    then show ?thesis using up lt
      by (intro exI [of _ "Suc a"]) (auto simp: backoff_log_last is_request_failure_def)
  next
    case (RequestException err b)
    show ?thesis
    proof (cases "Suc a < n")
      case False
      then have n: "n = Suc a" using lt by simp
      then have "\<not> int a < m - 1" using Suc.prems(2) by linarith
      then show ?thesis using RequestException n
        by (intro exI [of _ "Suc a"]) (auto simp: backoff_log_last)
    next
      case True
      then have sl: "int a < m - 1" using Suc.prems(2) by linarith
      from Suc.hyps(1) [OF d True Suc.prems(2)]
      obtain k where k: "Suc a < k" "k \<le> n"
        "fst (snd (download_attempts net m [Suc a..<n] [] False)) = backoff_log (Suc a) k"
        "\<forall>j. Suc a \<le> j \<and> j < k - 1 \<longrightarrow> is_request_failure (net j)"
        "is_request_failure (net (k - 1)) \<longrightarrow> k = n"
        by blast
      have "fst (snd (download_attempts net m [a..<n] [] False)) =
              [HttpGet a, Sleep (2 ^ a)] @ fst (snd (download_attempts net m [Suc a..<n] [] False))"
        using up RequestException sl
          download_attempts_log [of net m "[Suc a..<n]" "[HttpGet a, Sleep (2 ^ a)]" b] by simp
      also have "\<dots> = backoff_log a k"
        using k(1,3) by (simp add: backoff_log_step)
      finally have lg: "fst (snd (download_attempts net m [a..<n] [] False)) = backoff_log a k" .
      have "is_request_failure (net j)" if "a \<le> j \<and> j < k - 1" for j
        using that k(4) RequestException by (cases "j = a") (auto simp: is_request_failure_def)
      with k lg show ?thesis
        by (intro exI [of _ k]) auto
    qed
  qed
qed


lemma backoff_log_gets: "a < k \<Longrightarrow> length (filter is_get (backoff_log a k)) = k - a"
proof (induction "k - a" arbitrary: a)
  case 0
  then show ?case by simp
next
  case (Suc d)
  show ?case
  proof (cases "Suc a < k")
    case True
    then show ?thesis using Suc.hyps(1) [of "Suc a"] Suc.hyps(2)
      by (simp add: backoff_log_step is_get_def)
  next
    case False
    then have "k = Suc a" using Suc.prems by simp
    then show ?thesis by (simp add: backoff_log_last is_get_def)
  qed
qed

lemma download_file_log:
  assumes "0 < nat m"
  shows "\<exists>k. 0 < k \<and> k \<le> nat m \<and> fst (snd (download_file net m)) = backoff_log 0 k
      \<and> (\<forall>j. j < k - 1 \<longrightarrow> is_request_failure (net j))
      \<and> (is_request_failure (net (k - 1)) \<longrightarrow> k = nat m)"
  using log_upt [OF assms refl, of net] by (simp add: download_file_def)

text \<open>
  Claim C4, as the code has it. \<open>download_file\<close> returns true only if some attempt ran
  to completion, all attempts before it having raised a \<open>RequestException\<close>. It
  returns false after exactly \<open>max_attempts\<close> requests when every attempt raises a
  \<open>RequestException\<close>; that class holds the network-level failures and also the errors
  \<open>requests\<close> raises itself, such as an invalid URL, and the loop retries them all
  alike: after such a failure at an attempt that is not the last, the next attempt is
  made. An exception outside that class ends the loop at once: the function returns
  false and that attempt is the last request.
\<close>

theorem fetch_result:
  "(fst (download_file net max_attempts) \<longrightarrow>
      (\<exists>k < nat max_attempts. net k = Completed \<and> (\<forall>j < k. is_request_failure (net j))))
   \<and> ((\<forall>k < nat max_attempts. is_request_failure (net k)) \<longrightarrow>
        \<not> fst (download_file net max_attempts) \<and>
        length (filter is_get (fst (snd (download_file net max_attempts)))) = nat max_attempts)
   \<and> (\<forall>k b. k < nat max_attempts \<and> net k = OtherException b \<and>
             (\<forall>j < k. is_request_failure (net j)) \<longrightarrow>
        \<not> fst (download_file net max_attempts) \<and>
        length (filter is_get (fst (snd (download_file net max_attempts)))) = Suc k \<and>
        last (fst (snd (download_file net max_attempts))) = HttpGet k)
   \<and> (\<forall>k err b. Suc k < nat max_attempts \<and> net k = RequestException err b \<and>
             (\<forall>j < k. is_request_failure (net j)) \<longrightarrow>
        Suc k < length (filter is_get (fst (snd (download_file net max_attempts)))))"
proof (intro conjI impI allI)
  assume "fst (download_file net max_attempts)"
  then show "\<exists>k < nat max_attempts. net k = Completed \<and> (\<forall>j < k. is_request_failure (net j))"
    using result_upt [of net max_attempts 0 "nat max_attempts"] by (auto simp: download_file_def)
next
  assume all: "\<forall>k < nat max_attempts. is_request_failure (net k)"
  show "\<not> fst (download_file net max_attempts)"
  proof
    assume "fst (download_file net max_attempts)"
    then obtain k where "k < nat max_attempts" "net k = Completed"
      using result_upt [of net max_attempts 0 "nat max_attempts"] by (auto simp: download_file_def)
    with all show False by (auto simp: is_request_failure_def)
  qed
  show "length (filter is_get (fst (snd (download_file net max_attempts)))) = nat max_attempts"
  proof (cases "0 < nat max_attempts")
    case False
    then show ?thesis by (simp add: download_file_def)
  next
    case True
    from download_file_log [OF True, of net] obtain k where k: "0 < k" "k \<le> nat max_attempts"
      "fst (snd (download_file net max_attempts)) = backoff_log 0 k"
      "is_request_failure (net (k - 1)) \<longrightarrow> k = nat max_attempts" by blast
    have "k - 1 < nat max_attempts" using k(1,2) by simp
    with all k(4) have "k = nat max_attempts" by blast
    with k(1,3) show ?thesis by (simp add: backoff_log_gets)
  qed
next
  fix k b
  assume h: "k < nat max_attempts \<and> net k = OtherException b \<and> (\<forall>j < k. is_request_failure (net j))"
  show "\<not> fst (download_file net max_attempts)"
  proof
    assume "fst (download_file net max_attempts)"
    then obtain k' where k': "k' < nat max_attempts" "net k' = Completed" "\<forall>j < k'. is_request_failure (net j)"
      using result_upt [of net max_attempts 0 "nat max_attempts"] by (auto simp: download_file_def)
    have "k' \<noteq> k" using k'(2) h by auto
    then consider "k' < k" | "k < k'" by linarith
    then show False
    proof cases
      case 1
      with h k'(2) show False by (auto simp: is_request_failure_def)
    next
      case 2
      with h k'(3) show False by (auto simp: is_request_failure_def)
    qed
  qed
  have pos: "0 < nat max_attempts" using h by linarith
  from download_file_log [OF pos, of net] obtain k' where k': "0 < k'" "k' \<le> nat max_attempts"
    "fst (snd (download_file net max_attempts)) = backoff_log 0 k'"
    "\<forall>j. j < k' - 1 \<longrightarrow> is_request_failure (net j)"
    "is_request_failure (net (k' - 1)) \<longrightarrow> k' = nat max_attempts" by blast
  have nf: "\<not> is_request_failure (net k)" using h by (simp add: is_request_failure_def)
  have "\<not> k < k' - 1" using k'(4) nf by blast
  moreover have "\<not> k' - 1 < k"
  proof
    assume lt: "k' - 1 < k"
    with h have "is_request_failure (net (k' - 1))" by blast
    with k'(5) have "k' = nat max_attempts" by blast
    moreover from h have "k < nat max_attempts" by blast
    ultimately show False using lt by linarith
  qed
  ultimately have eq: "k' = Suc k" using k'(1) by simp
  show "length (filter is_get (fst (snd (download_file net max_attempts)))) = Suc k"
    using k'(3) eq by (simp add: backoff_log_gets)
  show "last (fst (snd (download_file net max_attempts))) = HttpGet k"
    using k'(3) eq by (simp add: backoff_log_def)
next
  fix k err b
  assume h: "Suc k < nat max_attempts \<and> net k = RequestException err b \<and>
             (\<forall>j < k. is_request_failure (net j))"
  then have pos: "0 < nat max_attempts" by linarith
  from download_file_log [OF pos, of net] obtain k' where k': "0 < k'" "k' \<le> nat max_attempts"
    "fst (snd (download_file net max_attempts)) = backoff_log 0 k'"
    "is_request_failure (net (k' - 1)) \<longrightarrow> k' = nat max_attempts" by blast
  have fails: "is_request_failure (net j)" if "j \<le> k" for j
    using that h by (cases "j = k") (auto simp: is_request_failure_def)
  have "Suc k < k'"
  proof (rule ccontr)
    assume "\<not> Suc k < k'"
    then have "k' - 1 \<le> k" by simp
    then have "is_request_failure (net (k' - 1))" by (rule fails)
    with k'(4) have "k' = nat max_attempts" by blast
    with \<open>\<not> Suc k < k'\<close> h show False by linarith
  qed
  then show "Suc k < length (filter is_get (fst (snd (download_file net max_attempts))))"
    using k'(1,3) by (simp add: backoff_log_gets)
qed

theorem fetch_result_witness:
  "fst (download_file (\<lambda>a. if a < 2 then RequestException Timeout False else Completed) 3)
   \<and> (\<exists>k < nat 3. (\<lambda>a. if a < 2 then RequestException Timeout False else Completed) k = Completed)
   \<and> \<not> fst (download_file (\<lambda>a. RequestException ConnectionError True) 3)
   \<and> length (filter is_get (fst (snd (download_file (\<lambda>a. RequestException ConnectionError True) 3)))) = nat 3
   \<and> \<not> fst (download_file (\<lambda>a. if a < 1 then RequestException Timeout False else OtherException False) 3)
   \<and> last (fst (snd (download_file (\<lambda>a. if a < 1 then RequestException Timeout False else OtherException False) 3))) = HttpGet 1
   \<and> Suc 0 < length (filter is_get
                    (fst (snd (download_file (\<lambda>a. RequestException InvalidURL False) 3))))"
proof -
  let ?n4 = "\<lambda>a::nat. RequestException InvalidURL False"
  have r: "Suc 0 < nat 3 \<and> ?n4 0 = RequestException InvalidURL False \<and>
           (\<forall>j < 0. is_request_failure (?n4 j))"
    by simp
  from fetch_result [of ?n4 3] r
  have 4: "Suc 0 < length (filter is_get (fst (snd (download_file ?n4 3))))"
    by blast
  let ?n1 = "\<lambda>a::nat. if a < 2 then RequestException Timeout False else Completed"
  let ?n2 = "\<lambda>a::nat. RequestException ConnectionError True"
  let ?n3 = "\<lambda>a::nat. if a < 1 then RequestException Timeout False else OtherException False"
  have t: "fst (download_file ?n1 3)" by code_simp
  have a: "\<forall>k < nat 3. is_request_failure (?n2 k)" by (simp add: is_request_failure_def)
  have o: "(1::nat) < nat 3 \<and> ?n3 1 = OtherException False \<and> (\<forall>j < 1. is_request_failure (?n3 j))"
    by (simp add: is_request_failure_def)
  from fetch_result [of ?n1 3] t
  have 1: "\<exists>k < nat 3. ?n1 k = Completed" by blast
  from fetch_result [of ?n2 3] a
  have 2: "\<not> fst (download_file ?n2 3) \<and> length (filter is_get (fst (snd (download_file ?n2 3)))) = nat 3"
    by blast
  from fetch_result [of ?n3 3] o
  have 3: "\<not> fst (download_file ?n3 3) \<and> last (fst (snd (download_file ?n3 3))) = HttpGet 1"
    by blast
  from t 1 2 3 4 show ?thesis by blast
qed

text \<open>
  The claim as stated fails for an error that is not network-level: an invalid URL is
  raised by \<open>requests.get\<close> as a \<open>RequestException\<close>, and the loop sleeps and tries
  again until the attempts are used up.
\<close>

theorem invalid_url_retried:
  "\<not> network_level InvalidURL
   \<and> download_file (\<lambda>a. RequestException InvalidURL False) 3 =
       (False, [HttpGet 0, Sleep 1, HttpGet 1, Sleep 2, HttpGet 2], False)"
proof
  show "\<not> network_level InvalidURL" by (simp add: network_level_def)
  show "download_file (\<lambda>a. RequestException InvalidURL False) 3 =
       (False, [HttpGet 0, Sleep 1, HttpGet 1, Sleep 2, HttpGet 2], False)"
    by code_simp
qed

text \<open>
  Claim C5. The log of every run is: request 0, sleep 1, request 1, sleep 2, \<dots>,
  ending with a request. Attempt \<open>j\<close> is followed by a sleep of \<open>2 ^ j\<close> exactly when
  another attempt follows, nothing follows the last attempt, and the number of
  requests is at most \<open>max_attempts\<close>.
\<close>

theorem fetch_backoff:
  "\<exists>k \<le> nat max_attempts.
     fst (snd (download_file net max_attempts)) =
       (if k = 0 then []
        else concat (map (\<lambda>j. [HttpGet j, Sleep (2 ^ j)]) [0..<k - 1]) @ [HttpGet (k - 1)])
     \<and> length (filter is_get (fst (snd (download_file net max_attempts)))) = k"
proof (cases "0 < nat max_attempts")
  case False
  then show ?thesis by (intro exI [of _ 0]) (simp add: download_file_def)
next
  case True
  from download_file_log [OF True, of net] obtain k where k: "0 < k" "k \<le> nat max_attempts"
    "fst (snd (download_file net max_attempts)) = backoff_log 0 k" by blast
  then show ?thesis
    using backoff_log_gets [of 0 k] by (intro exI [of _ k]) (simp add: backoff_log_def)
qed

theorem fetch_backoff_witness:
  "fst (snd (download_file (\<lambda>a. if a < 2 then RequestException Timeout False else Completed) 3)) =
     [HttpGet 0, Sleep 1, HttpGet 1, Sleep 2, HttpGet 2]
   \<and> (\<exists>k \<le> nat 3.
        fst (snd (download_file (\<lambda>a. if a < 2 then RequestException Timeout False else Completed) 3)) =
          (if k = 0 then []
           else concat (map (\<lambda>j. [HttpGet j, Sleep (2 ^ j)]) [0..<k - 1]) @ [HttpGet (k - 1)])
        \<and> length (filter is_get
             (fst (snd (download_file (\<lambda>a. if a < 2 then RequestException Timeout False else Completed) 3)))) = k)"
proof
  show "fst (snd (download_file (\<lambda>a. if a < 2 then RequestException Timeout False else Completed) 3)) =
     [HttpGet 0, Sleep 1, HttpGet 1, Sleep 2, HttpGet 2]"
    by code_simp
  show "\<exists>k \<le> nat 3.
        fst (snd (download_file (\<lambda>a. if a < 2 then RequestException Timeout False else Completed) 3)) =
          (if k = 0 then []
           else concat (map (\<lambda>j. [HttpGet j, Sleep (2 ^ j)]) [0..<k - 1]) @ [HttpGet (k - 1)])
        \<and> length (filter is_get
             (fst (snd (download_file (\<lambda>a. if a < 2 then RequestException Timeout False else Completed) 3)))) = k"
    by (rule fetch_backoff)
qed


section \<open>Properties of the file name resolution\<close>

lemma str_nat_value: "foldl (\<lambda>a d. 10 * a + (d - 48)) 0 (str_nat n) = n"
proof (induction n rule: str_nat.induct)
  case (1 n)
  show ?case
  proof (cases "n < 10")
    case True
    then show ?thesis by (subst str_nat.simps) simp
  next
    case False
    with 1 show ?thesis by (subst str_nat.simps) simp
  qed
qed

lemma str_nat_inj:
  assumes "str_nat j = str_nat k"
  shows "j = k"
proof -
  have "j = foldl (\<lambda>a d. 10 * a + (d - 48)) 0 (str_nat j)"
    by (rule str_nat_value [symmetric])
  also have "\<dots> = foldl (\<lambda>a d. 10 * a + (d - 48)) 0 (str_nat k)"
    by (simp only: assms)
  also have "\<dots> = k" by (rule str_nat_value)
  finally show ?thesis .
qed

lemma numbered_inj: "numbered name j = numbered name k \<Longrightarrow> j = k"
  by (simp add: numbered_def str_nat_inj)

lemma numbered_first: "take 1 (numbered name j) = take 1 (numbered name k)"
  by (cases "fst (splitext name)") (simp_all add: numbered_def ustr_def)

lemma join_numbered_inj:
  assumes "os_path_join folder (numbered name j) = os_path_join folder (numbered name k)"
  shows "j = k"
proof -
  have "py_startswith (numbered name j) [47] = py_startswith (numbered name k) [47]"
    using numbered_first [of name j k] by (simp add: py_startswith_def)
  with assms have "numbered name j = numbered name k"
    by (auto simp: os_path_join_def split: if_splits)
  then show ?thesis by (rule numbered_inj)
qed

lemma splitext_append: "fst (splitext p) @ snd (splitext p) = p"
  by (simp add: splitext_def Let_def)

lemma candidate_inj: "candidate name j = candidate name k \<Longrightarrow> j = k"
proof -
  have ne: "numbered name i \<noteq> name" for i
  proof
    assume "numbered name i = name"
    then have "length (numbered name i) = length (fst (splitext name) @ snd (splitext name))"
      by (simp add: splitext_append)
    then show False by (simp add: numbered_def ustr_def)
  qed
  assume "candidate name j = candidate name k"
  then show ?thesis
    using ne [of j] ne [of k] numbered_inj [of name j k]
    by (auto simp: candidate_def split: if_splits)
qed

lemma resolve_loop_finds:
  assumes "\<not> ex (os_path_join folder (numbered name k))" and "c \<le> k"
    and "\<forall>j. c \<le> j \<and> j < k \<longrightarrow> ex (os_path_join folder (numbered name j))"
    and "ex (os_path_join folder clean)"
  shows "resolve_loop ex folder name clean c =
           Some (numbered name k, os_path_join folder (numbered name k), Suc k)"
  using assms
proof (induction "k - c" arbitrary: c clean)
  case 0
  then have "c = k" by simp
  with 0 show ?case
    by (subst resolve_loop.simps, simp, subst resolve_loop.simps, simp)
next
  case (Suc d)
  then have lt: "c < k" by simp
  then have ex: "ex (os_path_join folder (numbered name c))" using Suc.prems(3) by simp
  have "resolve_loop ex folder name clean c = resolve_loop ex folder name (numbered name c) (Suc c)"
    using Suc.prems(4) by (subst resolve_loop.simps) simp
  also have "\<dots> = Some (numbered name k, os_path_join folder (numbered name k), Suc k)"
  proof (rule Suc.hyps(1))
    show "d = k - Suc c" using Suc.hyps(2) by simp
    show "\<not> ex (os_path_join folder (numbered name k))" by (rule Suc.prems(1))
    show "Suc c \<le> k" using lt by simp
    show "\<forall>j. Suc c \<le> j \<and> j < k \<longrightarrow> ex (os_path_join folder (numbered name j))"
      using Suc.prems(3) by simp
    show "ex (os_path_join folder (numbered name c))" by (rule ex)
  qed
  finally show ?case .
qed

lemma free_candidate:
  assumes "finite {p. ex p}"
  shows "\<exists>k. \<not> ex (os_path_join folder (candidate name k))"
proof (rule ccontr)
  assume "\<not> (\<exists>k. \<not> ex (os_path_join folder (candidate name k)))"
  then have all: "ex (os_path_join folder (candidate name k))" for k by blast
  let ?f = "\<lambda>k. os_path_join folder (numbered name (Suc k))"
  have "inj ?f"
    by (rule injI) (auto dest: join_numbered_inj)
  moreover have "range ?f \<subseteq> {p. ex p}"
    using all [of "Suc k" for k] by (auto simp: candidate_def)
  then have "finite (range ?f)" using assms by (rule finite_subset)
  ultimately have "finite (UNIV :: nat set)" by (rule finite_imageD [rotated])
  then show False by simp
qed

lemma first_free_candidate:
  assumes "finite {p. path_exists p}"
  shows "\<exists>k. resolve_collision path_exists folder name =
              Some (candidate name k, os_path_join folder (candidate name k), Suc k)
           \<and> \<not> path_exists (os_path_join folder (candidate name k))
           \<and> (\<forall>j < k. path_exists (os_path_join folder (candidate name j)))"
proof -
  let ?free = "\<lambda>k. \<not> path_exists (os_path_join folder (candidate name k))"
  define k where "k = (LEAST k. ?free k)"
  have "\<exists>k. ?free k" using assms by (rule free_candidate)
  then have free: "?free k" unfolding k_def by (rule LeastI_ex)
  have occ: "path_exists (os_path_join folder (candidate name j))" if "j < k" for j
    using not_less_Least [of j ?free] that unfolding k_def by blast
  have "resolve_collision path_exists folder name =
          Some (candidate name k, os_path_join folder (candidate name k), Suc k)"
  proof (cases "k = 0")
    case True
    with free show ?thesis
      by (simp add: resolve_collision_def candidate_def resolve_loop.simps)
  next
    case False
    have "resolve_loop path_exists folder name name 1 =
            Some (numbered name k, os_path_join folder (numbered name k), Suc k)"
    proof (rule resolve_loop_finds)
      show "\<not> path_exists (os_path_join folder (numbered name k))"
        using free False by (simp add: candidate_def)
      show "1 \<le> k" using False by simp
      show "\<forall>j. 1 \<le> j \<and> j < k \<longrightarrow> path_exists (os_path_join folder (numbered name j))"
      proof (intro allI impI)
        fix j assume j: "1 \<le> j \<and> j < k"
        then have "path_exists (os_path_join folder (candidate name j))" using occ by blast
        with j show "path_exists (os_path_join folder (numbered name j))"
          by (simp add: candidate_def)
      qed
      show "path_exists (os_path_join folder name)"
        using occ [of 0] False by (simp add: candidate_def)
    qed
    with False show ?thesis by (simp add: resolve_collision_def candidate_def)
  qed
  with free occ show ?thesis by blast
qed


lemma numbered_report:
  "numbered (ustr ''report.pdf'') (Suc 0) = ustr ''report_1.pdf''"
  "numbered (ustr ''report.pdf'') (Suc (Suc 0)) = ustr ''report_2.pdf''"
  by code_simp+

lemma join_report:
  "os_path_join folder (ustr ''report_1.pdf'') \<noteq> os_path_join folder (ustr ''report.pdf'')"
  "os_path_join folder (ustr ''report_2.pdf'') \<noteq> os_path_join folder (ustr ''report.pdf'')"
  "os_path_join folder (ustr ''report_2.pdf'') \<noteq> os_path_join folder (ustr ''report_1.pdf'')"
  by (simp_all add: os_path_join_def py_startswith_def ustr_def)

lemma resolve_report_first:
  assumes "ex (os_path_join dir (ustr ''report.pdf''))"
    and "\<not> ex (os_path_join dir (ustr ''report_1.pdf''))"
  shows "resolve_collision ex dir (ustr ''report.pdf'') =
           Some (ustr ''report_1.pdf'', os_path_join dir (ustr ''report_1.pdf''), 2)"
  using resolve_loop_finds [of ex dir "ustr ''report.pdf''" "Suc 0" "Suc 0" "ustr ''report.pdf''"] assms
  by (simp add: resolve_collision_def numbered_report)

lemma resolve_report_second:
  assumes "ex (os_path_join dir (ustr ''report.pdf''))"
    and "ex (os_path_join dir (ustr ''report_1.pdf''))"
    and "\<not> ex (os_path_join dir (ustr ''report_2.pdf''))"
  shows "resolve_collision ex dir (ustr ''report.pdf'') =
           Some (ustr ''report_2.pdf'', os_path_join dir (ustr ''report_2.pdf''), 3)"
proof -
  have "\<forall>j. Suc 0 \<le> j \<and> j < Suc (Suc 0) \<longrightarrow>
          ex (os_path_join dir (numbered (ustr ''report.pdf'') j))"
  proof (intro allI impI)
    fix j assume "Suc 0 \<le> j \<and> j < Suc (Suc 0)"
    then have "j = Suc 0" by simp
    with assms(2) show "ex (os_path_join dir (numbered (ustr ''report.pdf'') j))"
      by (simp add: numbered_report)
  qed
  with resolve_loop_finds [of ex dir "ustr ''report.pdf''" "Suc (Suc 0)" "Suc 0" "ustr ''report.pdf''"]
    assms
  show ?thesis
    by (simp add: resolve_collision_def numbered_report eval_nat_numeral)
qed

lemma info_file_report:
  "fst (splitext (ustr ''report_1.pdf'')) @ info_suffix =
     ustr ''report_1'' @ [95, 51221, 48372, 46, 116, 120, 116]"
proof -
  have "fst (splitext (ustr ''report_1.pdf'')) = ustr ''report_1''" by code_simp
  then show ?thesis by (simp add: info_suffix_def)
qed

lemma join_info_report:
  "os_path_join dir (ustr ''report_1'' @ [95, 51221, 48372, 46, 116, 120, 116]) \<noteq>
     os_path_join dir (ustr ''report_2.pdf'')"
  by (simp add: os_path_join_def py_startswith_def ustr_def)

lemma record_download_files:
  "fs (world (record_download env folder name path st)) =
     (case download_file (network env (calls (world st))) 3 of
        (ok, tr, created) \<Rightarrow>
          (if ok then insert (os_path_join folder (fst (splitext name) @ info_suffix)) else id)
            (if created then insert path (fs (world st)) else fs (world st)))"
  by (cases "download_file (network env (calls (world st))) 3")
     (simp add: record_download_def Let_def)

lemma report_after_download:
  assumes "fs (world st) = {os_path_join dir (ustr ''report.pdf'')}"
  shows "resolve_collision
           (\<lambda>p. p \<in> fs (world (record_download env dir (ustr ''report_1.pdf'')
                                  (os_path_join dir (ustr ''report_1.pdf'')) st)))
           dir (ustr ''report.pdf'') =
         (if snd (snd (download_file (network env (calls (world st))) 3))
          then Some (ustr ''report_2.pdf'', os_path_join dir (ustr ''report_2.pdf''), 3)
          else Some (ustr ''report_1.pdf'', os_path_join dir (ustr ''report_1.pdf''), 2))"
proof (cases "download_file (network env (calls (world st))) 3")
  case (fields ok tr created)
  let ?st1 = "record_download env dir (ustr ''report_1.pdf'')
                (os_path_join dir (ustr ''report_1.pdf'')) st"
  have files: "fs (world ?st1) =
      (if ok then insert (os_path_join dir (ustr ''report_1'' @ [95, 51221, 48372, 46, 116, 120, 116]))
       else id)
        (if created then insert (os_path_join dir (ustr ''report_1.pdf''))
                           {os_path_join dir (ustr ''report.pdf'')}
         else {os_path_join dir (ustr ''report.pdf'')})"
    using fields assms by (simp add: record_download_files info_file_report)
  have ok_created: "ok \<longrightarrow> created"
  proof -
    have "fst (download_attempts net m as tr0 cr) \<longrightarrow> snd (snd (download_attempts net m as tr0 cr))"
      for net m as tr0 cr
      by (induction as arbitrary: tr0 cr) (auto split: attempt_outcome.splits)
    from this [of "network env (calls (world st))" 3 "[0..<nat 3]" "[]" False] fields
    show ?thesis by (simp add: download_file_def)
  qed
  have info1: "os_path_join dir (ustr ''report_1'' @ [95, 51221, 48372, 46, 116, 120, 116]) \<noteq>
      os_path_join dir (ustr ''report_1.pdf'')"
    by (simp add: os_path_join_def py_startswith_def ustr_def)
  show ?thesis
  proof (cases created)
    case True
    have "resolve_collision (\<lambda>p. p \<in> fs (world ?st1)) dir (ustr ''report.pdf'') =
            Some (ustr ''report_2.pdf'', os_path_join dir (ustr ''report_2.pdf''), 3)"
      using True files join_report [of dir] join_info_report [of dir]
      by (intro resolve_report_second) (auto simp del: append.simps)
    with True fields show ?thesis by simp
  next
    case False
    then have "\<not> ok" using ok_created by blast
    then have "resolve_collision (\<lambda>p. p \<in> fs (world ?st1)) dir (ustr ''report.pdf'') =
            Some (ustr ''report_1.pdf'', os_path_join dir (ustr ''report_1.pdf''), 2)"
      using False files join_report [of dir]
      by (intro resolve_report_first) auto
    with False fields show ?thesis by simp
  qed
qed

text \<open>
  Claim C6, as the code has it. When finitely many paths exist, the collision loop
  ends, and the name it leaves is the first one in the sequence \<open>name.ext\<close>,
  \<open>name_1.ext\<close>, \<open>name_2.ext\<close>, \<dots> whose path does not exist: every earlier one exists,
  and the counter ends one past the number used. The candidates are pairwise
  different, so no counter is used twice within one resolution. The counter starts at 1
  again for every assignment: against a folder that holds only \<open>report.pdf\<close> the name
  \<open>report.pdf\<close> becomes \<open>report_1.pdf\<close>, and after the download to that path the same
  name becomes \<open>report_2.pdf\<close> if \<open>download_file\<close> had created the file, and
  \<open>report_1.pdf\<close> once more if it had not.
\<close>

theorem collision_resolution:
  assumes "finite {p. path_exists p}"
  shows "(\<exists>k. resolve_collision path_exists folder name =
              Some (candidate name k, os_path_join folder (candidate name k), Suc k)
            \<and> \<not> path_exists (os_path_join folder (candidate name k))
            \<and> (\<forall>j < k. path_exists (os_path_join folder (candidate name j))))
       \<and> candidate name 0 = name
       \<and> candidate name (Suc n) =
           fst (splitext name) @ ustr ''_'' @ str_nat (Suc n) @ snd (splitext name)
       \<and> fst (splitext name) @ snd (splitext name) = name
       \<and> inj (candidate name)
       \<and> (fs (world st) = {os_path_join dir (ustr ''report.pdf'')} \<longrightarrow>
            resolve_collision (\<lambda>p. p \<in> fs (world st)) dir (ustr ''report.pdf'') =
              Some (ustr ''report_1.pdf'', os_path_join dir (ustr ''report_1.pdf''), 2)
          \<and> resolve_collision
                (\<lambda>p. p \<in> fs (world (record_download env dir (ustr ''report_1.pdf'')
                                       (os_path_join dir (ustr ''report_1.pdf'')) st)))
                dir (ustr ''report.pdf'') =
              (if snd (snd (download_file (network env (calls (world st))) 3))
               then Some (ustr ''report_2.pdf'', os_path_join dir (ustr ''report_2.pdf''), 3)
               else Some (ustr ''report_1.pdf'', os_path_join dir (ustr ''report_1.pdf''), 2)))"
proof (intro conjI impI)
  show "\<exists>k. resolve_collision path_exists folder name =
              Some (candidate name k, os_path_join folder (candidate name k), Suc k)
            \<and> \<not> path_exists (os_path_join folder (candidate name k))
            \<and> (\<forall>j < k. path_exists (os_path_join folder (candidate name j)))"
    using assms by (rule first_free_candidate)
  show "candidate name 0 = name" by (simp add: candidate_def)
  show "candidate name (Suc n) =
           fst (splitext name) @ ustr ''_'' @ str_nat (Suc n) @ snd (splitext name)"
    by (simp add: candidate_def numbered_def)
  show "fst (splitext name) @ snd (splitext name) = name" by (rule splitext_append)
  show "inj (candidate name)" by (rule injI) (rule candidate_inj)
next
  assume f: "fs (world st) = {os_path_join dir (ustr ''report.pdf'')}"
  show "resolve_collision (\<lambda>p. p \<in> fs (world st)) dir (ustr ''report.pdf'') =
              Some (ustr ''report_1.pdf'', os_path_join dir (ustr ''report_1.pdf''), 2)"
    using f join_report [of dir] by (intro resolve_report_first) auto
  show "resolve_collision
                (\<lambda>p. p \<in> fs (world (record_download env dir (ustr ''report_1.pdf'')
                                       (os_path_join dir (ustr ''report_1.pdf'')) st)))
                dir (ustr ''report.pdf'') =
              (if snd (snd (download_file (network env (calls (world st))) 3))
               then Some (ustr ''report_2.pdf'', os_path_join dir (ustr ''report_2.pdf''), 3)
               else Some (ustr ''report_1.pdf'', os_path_join dir (ustr ''report_1.pdf''), 2))"
    using f by (rule report_after_download)
qed

theorem collision_resolution_witness:
  "finite {p. p \<in> {os_path_join (ustr ''d'') (ustr ''report.pdf'')}}
   \<and> (\<exists>k. resolve_collision (\<lambda>p. p \<in> {os_path_join (ustr ''d'') (ustr ''report.pdf'')})
             (ustr ''d'') (ustr ''report.pdf'') =
           Some (candidate (ustr ''report.pdf'') k,
                 os_path_join (ustr ''d'') (candidate (ustr ''report.pdf'') k), Suc k))
   \<and> resolve_collision
        (\<lambda>p. p \<in> fs (world \<lparr>dstats = zero_stats, student_files = 0, student_downloads = 0,
                             world = \<lparr>fs = {os_path_join (ustr ''d'') (ustr ''report.pdf'')},
                                      calls = 0\<rparr>\<rparr>))
        (ustr ''d'') (ustr ''report.pdf'') =
      Some (ustr ''report_1.pdf'', os_path_join (ustr ''d'') (ustr ''report_1.pdf''), 2)
   \<and> resolve_collision
        (\<lambda>p. p \<in> fs (world (record_download
                 \<lparr>network = (\<lambda>n a. Completed), urlparse_path = (\<lambda>u. Inr u)\<rparr>
                 (ustr ''d'') (ustr ''report_1.pdf'')
                 (os_path_join (ustr ''d'') (ustr ''report_1.pdf''))
                 \<lparr>dstats = zero_stats, student_files = 0, student_downloads = 0,
                  world = \<lparr>fs = {os_path_join (ustr ''d'') (ustr ''report.pdf'')},
                           calls = 0\<rparr>\<rparr>)))
        (ustr ''d'') (ustr ''report.pdf'') =
      Some (ustr ''report_2.pdf'', os_path_join (ustr ''d'') (ustr ''report_2.pdf''), 3)"
proof -
  let ?ex = "\<lambda>p. p \<in> {os_path_join (ustr ''d'') (ustr ''report.pdf'')}"
  let ?env = "\<lparr>network = (\<lambda>n a. Completed), urlparse_path = (\<lambda>u. Inr u)\<rparr>"
  let ?st = "\<lparr>dstats = zero_stats, student_files = 0, student_downloads = 0,
              world = \<lparr>fs = {os_path_join (ustr ''d'') (ustr ''report.pdf'')}, calls = 0\<rparr>\<rparr>"
  have fin: "finite {p. ?ex p}" by simp
  have f: "fs (world ?st) = {os_path_join (ustr ''d'') (ustr ''report.pdf'')}" by simp
  have c: "snd (snd (download_file (network ?env (calls (world ?st))) 3))"
    by (simp add: download_file_def upt_conv_Cons)
  from collision_resolution [OF fin, of "ustr ''d''" "ustr ''report.pdf''" 0 ?st "ustr ''d''" ?env]
  have "(\<exists>k. resolve_collision ?ex (ustr ''d'') (ustr ''report.pdf'') =
           Some (candidate (ustr ''report.pdf'') k,
                 os_path_join (ustr ''d'') (candidate (ustr ''report.pdf'') k), Suc k))
     \<and> (fs (world ?st) = {os_path_join (ustr ''d'') (ustr ''report.pdf'')} \<longrightarrow>
            resolve_collision (\<lambda>p. p \<in> fs (world ?st)) (ustr ''d'') (ustr ''report.pdf'') =
              Some (ustr ''report_1.pdf'', os_path_join (ustr ''d'') (ustr ''report_1.pdf''), 2)
          \<and> resolve_collision
                (\<lambda>p. p \<in> fs (world (record_download ?env (ustr ''d'') (ustr ''report_1.pdf'')
                                       (os_path_join (ustr ''d'') (ustr ''report_1.pdf'')) ?st)))
                (ustr ''d'') (ustr ''report.pdf'') =
              (if snd (snd (download_file (network ?env (calls (world ?st))) 3))
               then Some (ustr ''report_2.pdf'', os_path_join (ustr ''d'') (ustr ''report_2.pdf''), 3)
               else Some (ustr ''report_1.pdf'', os_path_join (ustr ''d'') (ustr ''report_1.pdf''), 2)))"
    by blast
  then have a: "\<exists>k. resolve_collision ?ex (ustr ''d'') (ustr ''report.pdf'') =
           Some (candidate (ustr ''report.pdf'') k,
                 os_path_join (ustr ''d'') (candidate (ustr ''report.pdf'') k), Suc k)"
    and b: "resolve_collision (\<lambda>p. p \<in> fs (world ?st)) (ustr ''d'') (ustr ''report.pdf'') =
              Some (ustr ''report_1.pdf'', os_path_join (ustr ''d'') (ustr ''report_1.pdf''), 2)"
    and r: "resolve_collision
                (\<lambda>p. p \<in> fs (world (record_download ?env (ustr ''d'') (ustr ''report_1.pdf'')
                                       (os_path_join (ustr ''d'') (ustr ''report_1.pdf'')) ?st)))
                (ustr ''d'') (ustr ''report.pdf'') =
              (if snd (snd (download_file (network ?env (calls (world ?st))) 3))
               then Some (ustr ''report_2.pdf'', os_path_join (ustr ''d'') (ustr ''report_2.pdf''), 3)
               else Some (ustr ''report_1.pdf'', os_path_join (ustr ''d'') (ustr ''report_1.pdf''), 2))"
    using f by blast+
  from r c have r2: "resolve_collision
                (\<lambda>p. p \<in> fs (world (record_download ?env (ustr ''d'') (ustr ''report_1.pdf'')
                                       (os_path_join (ustr ''d'') (ustr ''report_1.pdf'')) ?st)))
                (ustr ''d'') (ustr ''report.pdf'') =
               Some (ustr ''report_2.pdf'', os_path_join (ustr ''d'') (ustr ''report_2.pdf''), 3)"
    by (simp only: if_P if_True)
  from fin a b r2 show ?thesis by (intro conjI)
qed

text \<open>
  The claim as stated fails when the first download does not create its file: with a
  connection error at every attempt nothing is written, and the second resolution of
  \<open>report.pdf\<close> gives \<open>report_1.pdf\<close> again.
\<close>

theorem failed_download_reuses_name:
  "resolve_collision
     (\<lambda>p. p \<in> fs (world \<lparr>dstats = zero_stats, student_files = 0, student_downloads = 0,
                          world = \<lparr>fs = {os_path_join (ustr ''d'') (ustr ''report.pdf'')},
                                   calls = 0\<rparr>\<rparr>))
     (ustr ''d'') (ustr ''report.pdf'') =
   Some (ustr ''report_1.pdf'', os_path_join (ustr ''d'') (ustr ''report_1.pdf''), 2)
   \<and> resolve_collision
        (\<lambda>p. p \<in> fs (world (record_download
                 \<lparr>network = (\<lambda>n a. RequestException ConnectionError False),
                  urlparse_path = (\<lambda>u. Inr u)\<rparr>
                 (ustr ''d'') (ustr ''report_1.pdf'')
                 (os_path_join (ustr ''d'') (ustr ''report_1.pdf''))
                 \<lparr>dstats = zero_stats, student_files = 0, student_downloads = 0,
                  world = \<lparr>fs = {os_path_join (ustr ''d'') (ustr ''report.pdf'')},
                           calls = 0\<rparr>\<rparr>)))
        (ustr ''d'') (ustr ''report.pdf'') =
      Some (ustr ''report_1.pdf'', os_path_join (ustr ''d'') (ustr ''report_1.pdf''), 2)"
proof -
  let ?env = "\<lparr>network = (\<lambda>n a. RequestException ConnectionError False),
               urlparse_path = (\<lambda>u. Inr u)\<rparr>"
  let ?st = "\<lparr>dstats = zero_stats, student_files = 0, student_downloads = 0,
              world = \<lparr>fs = {os_path_join (ustr ''d'') (ustr ''report.pdf'')}, calls = 0\<rparr>\<rparr>"
  have f: "fs (world ?st) = {os_path_join (ustr ''d'') (ustr ''report.pdf'')}" by simp
  have c: "\<not> snd (snd (download_file (network ?env (calls (world ?st))) 3))"
    by (simp add: download_file_def upt_conv_Cons)
  have 1: "resolve_collision (\<lambda>p. p \<in> fs (world ?st)) (ustr ''d'') (ustr ''report.pdf'') =
      Some (ustr ''report_1.pdf'', os_path_join (ustr ''d'') (ustr ''report_1.pdf''), 2)"
    using f join_report [of "ustr ''d''"] by (intro resolve_report_first) auto
  from report_after_download [OF f, of ?env] c
  have 2: "resolve_collision
        (\<lambda>p. p \<in> fs (world (record_download ?env (ustr ''d'') (ustr ''report_1.pdf'')
                 (os_path_join (ustr ''d'') (ustr ''report_1.pdf'')) ?st)))
        (ustr ''d'') (ustr ''report.pdf'') =
      Some (ustr ''report_1.pdf'', os_path_join (ustr ''d'') (ustr ''report_1.pdf''), 2)"
    by (simp only: if_not_P if_False)
  from 1 2 show ?thesis by (rule conjI)
qed

section \<open>Properties of the traversals\<close>

lemma empty_not_sentinel: "[] \<notin> set sentinels"
  by (simp add: sentinels_def no_attachment_def dash_def ustr_def)

lemma parse_absent:
  "d = [] \<or> d \<in> set sentinels \<Longrightarrow> extract_file_info_from_attachment d = Inr (None, None, None)"
  by (simp add: extract_file_info_from_attachment_def)

text \<open>
  Claim C2, as the code has it. An empty or sentinel descriptor is parsed to three absent
  fields, and the download loop leaves its whole state (counters, files, calls) as it
  was for an assignment with such a descriptor. The extraction loop leaves its
  dictionary as it was for an assignment whose descriptor is one of the two sentinels.
\<close>

theorem sentinel_not_counted:
  assumes "d = [] \<or> d \<in> set sentinels" and "submitAttachments a = Some d"
  shows "extract_file_info_from_attachment d = Inr (None, None, None)
       \<and> process_assignment env student_folder i a st = Some (Inr st)
       \<and> (d \<in> set sentinels \<longrightarrow> extract_assignment student_name a sa = Inr sa)"
proof (intro conjI impI)
  show p: "extract_file_info_from_attachment d = Inr (None, None, None)"
    using assms(1) by (rule parse_absent)
  show "process_assignment env student_folder i a st = Some (Inr st)"
    using assms(2) p by (simp add: process_assignment_def)
  show "extract_assignment student_name a sa = Inr sa" if "d \<in> set sentinels"
    using that assms(2) by (simp add: extract_assignment_def)
qed

theorem sentinel_not_counted_witness:
  "extract_file_info_from_attachment no_attachment = Inr (None, None, None)
   \<and> process_assignment \<lparr>network = (\<lambda>n a. Completed), urlparse_path = (\<lambda>u. Inr u)\<rparr> (ustr ''d'') 0
        (blank_assignment (Some no_attachment))
        \<lparr>dstats = zero_stats, student_files = 0, student_downloads = 0,
         world = \<lparr>fs = {}, calls = 0\<rparr>\<rparr> =
      Some (Inr \<lparr>dstats = zero_stats, student_files = 0, student_downloads = 0,
                 world = \<lparr>fs = {}, calls = 0\<rparr>\<rparr>)
   \<and> extract_assignment (ustr ''kim'') (blank_assignment (Some no_attachment)) [] = Inr []
   \<and> process_assignment \<lparr>network = (\<lambda>n a. Completed), urlparse_path = (\<lambda>u. Inr u)\<rparr> (ustr ''d'') 0
        (blank_assignment (Some []))
        \<lparr>dstats = zero_stats, student_files = 0, student_downloads = 0,
         world = \<lparr>fs = {}, calls = 0\<rparr>\<rparr> =
      Some (Inr \<lparr>dstats = zero_stats, student_files = 0, student_downloads = 0,
                 world = \<lparr>fs = {}, calls = 0\<rparr>\<rparr>)"
proof -
  let ?env = "\<lparr>network = (\<lambda>n a. Completed), urlparse_path = (\<lambda>u. Inr u)\<rparr>"
  let ?st = "\<lparr>dstats = zero_stats, student_files = 0, student_downloads = 0,
              world = \<lparr>fs = {}, calls = 0\<rparr>\<rparr>"
  have s: "no_attachment = [] \<or> no_attachment \<in> set sentinels" by (simp add: sentinels_def)
  have m: "no_attachment \<in> set sentinels" by (simp add: sentinels_def)
  have e: "([]::pystr) = [] \<or> [] \<in> set sentinels" by simp
  have a: "submitAttachments (blank_assignment (Some no_attachment)) = Some no_attachment"
    by (simp add: blank_assignment_def)
  have b: "submitAttachments (blank_assignment (Some [])) = Some []"
    by (simp add: blank_assignment_def)
  from sentinel_not_counted [OF s a, of ?env "ustr ''d''" 0 ?st "ustr ''kim''" "[]"]
       sentinel_not_counted [OF e b, of ?env "ustr ''d''" 0 ?st "ustr ''kim''" "[]"] m
  show ?thesis by blast
qed

text \<open>
  The claim as stated fails in the extraction pipeline, whose loop guards on the two
  sentinels only and never looks at the parsed fields: a report whose only assignment
  has the empty descriptor is counted as one student with one submission, and the CSV
  row of that record has no URL.
\<close>

theorem empty_descriptor_counted:
  "processing_results
     (main_v4 [(ustr ''c.json'',
                Inr \<lparr>statsByMember = Some
                       [\<lparr>member_key = Some \<lparr>displayName = Some (ustr ''kim'')\<rparr>,
                         assignments = Some [blank_assignment (Some [])]\<rparr>]\<rparr>)]) =
     [\<lparr>filename = ustr ''c.json'', students = 1, submissions = 1, status = Succeeded\<rparr>]
   \<and> map (\<lambda>f. map (\<lambda>r. (row_student r, row_file_type r, row_file_name r, row_file_url r))
                 (snd f))
       (csv_files
          (main_v4 [(ustr ''c.json'',
                     Inr \<lparr>statsByMember = Some
                            [\<lparr>member_key = Some \<lparr>displayName = Some (ustr ''kim'')\<rparr>,
                              assignments = Some [blank_assignment (Some [])]\<rparr>]\<rparr>)])) =
     [[(ustr ''kim'', None, None, None)]]"
  by (simp add: main_v4_def process_file_v4_def extract_student_assignments_from_json_def
      extract_assignment_def blank_assignment_def empty_not_sentinel parse_absent get_or_def
      basename_def ustr_def create_csv_file_def dict_lookup_def make_row_def Let_def)

section \<open>Properties of the runs over several files\<close>










section \<open>Properties of the CSV output\<close>




















section \<open>Properties of the download statistics\<close>

























end
